theory Spec2Isabelle
  imports Main
begin

section \<open>Values and arrays of the widget\<close>

text \<open>
  The state variable \<open>selected\<close> is declared \<open>string | null\<close>, but the arrow handlers
  store the result of an array read in it, and an array read outside the bounds is
  \<open>undefined\<close>. The three shapes are kept apart.
\<close>

datatype jsval = Null | Undefined | Str string

text \<open>\<open>!selected\<close>: null, undefined and the empty string are falsy.\<close>

fun falsy :: "jsval \<Rightarrow> bool" where
  "falsy Null = True"
| "falsy Undefined = True"
| "falsy (Str v) = (v = [])"

text \<open>\<open>selected || ""\<close>: a falsy value is replaced by the empty string.\<close>

fun orEmpty :: "jsval \<Rightarrow> string" where
  "orEmpty Null = []"
| "orEmpty Undefined = []"
| "orEmpty (Str v) = v"

text \<open>\<open>opts[i]\<close>: the element inside the bounds, \<open>undefined\<close> elsewhere (also at \<open>-1\<close>).\<close>

definition elemAt :: "string list \<Rightarrow> int \<Rightarrow> jsval" where
  "elemAt opts i = (if 0 \<le> i \<and> i < int (length opts) then Str (opts ! nat i) else Undefined)"

text \<open>\<open>Array.prototype.indexOf\<close>: the first position holding the value, \<open>-1\<close> if none.\<close>

fun indexOfFrom :: "string list \<Rightarrow> string \<Rightarrow> int \<Rightarrow> int" where
  "indexOfFrom [] v k = - 1"
| "indexOfFrom (x # xs) v k = (if x = v then k else indexOfFrom xs v (k + 1))"

definition indexOf :: "string list \<Rightarrow> string \<Rightarrow> int" where
  "indexOf opts v = indexOfFrom opts v 0"

datatype error = JsError string | TypeError

section \<open>The root controller\<close>

text \<open>
  What one mounted \<open>ComboBox\<close> keeps between events.
  \<^item> The three \<open>useState\<close> cells, the \<open>options\<close> ref (\<open>string[] | null\<close>), the number of
    callbacks handed to \<open>requestAnimationFrame\<close> that have not run yet, and the state of
    the embedding application, which only the callbacks it passed in can change.
  \<^item> What the last render left behind: the \<open>onSelect\<close> prop it was given and the values
    of the option rows it rendered inside the list.
  \<^item> The cells of \<open>useCallback\<close> that matter for \<open>onSelect\<close>. \<open>onItemSelect\<close> is memoised
    on \<open>[selected]\<close>: the cell keeps that dependency and the \<open>onSelect\<close> the closure was
    created with. \<open>handleSelect\<close> is memoised on \<open>[]\<close>: its closure keeps the \<open>onSelect\<close>
    of the first render.
  Every closure that reads \<open>selected\<close> or \<open>showPopover\<close> lists it among its
  dependencies, and a render follows every change of a cell, so at the next event it
  reads the value of the cell; \<open>onSelect\<close> is in no dependency array.
\<close>

record 'w combo =
  selected :: jsval
  showPopover :: bool
  expanded :: bool
  options :: "string list option"
  pendingFrames :: nat
  world :: 'w
  onSelectProp :: "(jsval \<Rightarrow> 'w \<Rightarrow> 'w) option"
  rows :: "string list"
  onItemSelectDeps :: jsval
  onItemSelectHolds :: "(jsval \<Rightarrow> 'w \<Rightarrow> 'w) option"
  handleSelectHolds :: "(jsval \<Rightarrow> 'w \<Rightarrow> 'w) option"

text \<open>The cells as the first call of the component function creates them, given no
  \<open>onSelect\<close> and no rows.\<close>

definition initial :: "'w \<Rightarrow> 'w combo" where
  "initial w = \<lparr>selected = Null, showPopover = False, expanded = False,
     options = Some [], pendingFrames = 0, world = w,
     onSelectProp = None, rows = [], onItemSelectDeps = Null,
     onItemSelectHolds = None, handleSelectHolds = None\<rparr>"

text \<open>
  \<open>getSelectedIndex\<close>. The read \<open>options.current!.indexOf\<close> is a TypeError when the ref
  holds null; it is reached only with a truthy selection.
\<close>

definition getSelectedIndex :: "'w combo \<Rightarrow> error + int" where
  "getSelectedIndex s =
     (if falsy (selected s) then Inr (- 1)
      else case options s of
             None \<Rightarrow> Inl TypeError
           | Some opts \<Rightarrow> Inr (indexOf opts (orEmpty (selected s))))"

definition onArrowDown :: "'w combo \<Rightarrow> error + 'w combo" where
  "onArrowDown s =
     (case getSelectedIndex s of
        Inl e \<Rightarrow> Inl e
      | Inr i \<Rightarrow>
          (case options s of
             None \<Rightarrow> Inl TypeError
           | Some opts \<Rightarrow>
               if i + 1 = int (length opts) then Inr (s\<lparr>selected := elemAt opts 0\<rparr>)
               else Inr (s\<lparr>selected := elemAt opts (i + 1)\<rparr>)))"

definition onArrowUp :: "'w combo \<Rightarrow> error + 'w combo" where
  "onArrowUp s =
     (case getSelectedIndex s of
        Inl e \<Rightarrow> Inl e
      | Inr i \<Rightarrow>
          if i = - 1 then
            (case options s of
               None \<Rightarrow> Inl TypeError
             | Some opts \<Rightarrow> Inr (s\<lparr>selected := elemAt opts (int (length opts) - 1)\<rparr>))
          else
            (case options s of
               None \<Rightarrow> Inl TypeError
             | Some opts \<Rightarrow> Inr (s\<lparr>selected := elemAt opts (i - 1)\<rparr>)))"

text \<open>
  \<open>onItemSelect\<close>, memoised on \<open>[selected]\<close>. The \<open>onSelect\<close> it tests and calls is the one
  in its closure, which is the prop of the render that created the closure; the callback
  receives \<open>selected\<close> as it is, whatever its shape.
\<close>

definition onItemSelect :: "'w combo \<Rightarrow> 'w combo" where
  "onItemSelect s =
     (let s1 = s\<lparr>showPopover := False\<rparr>;
          s2 = (case onItemSelectHolds s of
                  None \<Rightarrow> s1
                | Some f \<Rightarrow> s1\<lparr>world := f (selected s) (world s1)\<rparr>)
      in s2\<lparr>selected := Null\<rparr>)"

definition onEscape :: "'w combo \<Rightarrow> 'w combo" where
  "onEscape s = s\<lparr>showPopover := False, selected := Null\<rparr>"

definition makeHash :: "string \<Rightarrow> string \<Rightarrow> string" where
  "makeHash listId i = listId @ i"

text \<open>The keyboard event: its key name and whether \<open>preventDefault\<close> was called on it.\<close>

record keyEvent =
  key :: string
  defaultPrevented :: bool

definition preventDefault :: "keyEvent \<Rightarrow> keyEvent" where
  "preventDefault e = e\<lparr>defaultPrevented := True\<rparr>"

text \<open>
  \<open>onKeyDown\<close>: the event after the handler, and the handler's outcome. In each case of
  the switch \<open>preventDefault\<close> comes first, so it has happened even when the handler
  called next throws.
\<close>

definition onKeyDown :: "keyEvent \<Rightarrow> 'w combo \<Rightarrow> keyEvent \<times> (error + 'w combo)" where
  "onKeyDown e s =
     (if key e = ''ArrowUp'' then (preventDefault e, onArrowUp s)
      else if key e = ''ArrowDown'' then (preventDefault e, onArrowDown s)
      else if key e = ''Escape'' then (preventDefault e, Inr (onEscape s))
      else if key e = ''Enter'' then (preventDefault e, Inr (onItemSelect s))
      else (e, Inr s))"

definition onInputChange :: "'w combo \<Rightarrow> 'w combo" where
  "onInputChange s =
     (let s1 = s\<lparr>selected := Null\<rparr>
      in if \<not> showPopover s then s1\<lparr>showPopover := True\<rparr> else s1)"

text \<open>
  The page as \<open>handleBlur\<close>'s deferred callback reads it: the element tree, the focused
  element (\<open>document.activeElement\<close>, possibly null) and the two refs of the controller
  (null while the element they are bound to is not mounted).
\<close>

type_synonym elem = nat

datatype node = Node elem "node list"

fun nodeIds :: "node \<Rightarrow> elem list" where
  "nodeIds (Node i cs) = i # concat (map nodeIds cs)"

fun descendantsOf :: "elem \<Rightarrow> node \<Rightarrow> elem list" where
  "descendantsOf a (Node i cs) =
     (if i = a then nodeIds (Node i cs) else concat (map (descendantsOf a) cs))"

record dom =
  document :: node
  activeElement :: "elem option"
  inputRef :: "elem option"
  listRef :: "elem option"

text \<open>\<open>list.contains(focusedElement)\<close>: the node itself or one below it; false for null.\<close>

definition contains :: "node \<Rightarrow> elem \<Rightarrow> elem option \<Rightarrow> bool" where
  "contains doc l x = (case x of None \<Rightarrow> False | Some f \<Rightarrow> f \<in> set (descendantsOf l doc))"

text \<open>The function \<open>handleBlur\<close> passes to \<open>requestAnimationFrame\<close>.\<close>

definition blurCheck :: "dom \<Rightarrow> 'w combo \<Rightarrow> 'w combo" where
  "blurCheck d s =
     (if activeElement d = inputRef d \<or> activeElement d = listRef d then s
      else if (case listRef d of
                 None \<Rightarrow> False
               | Some l \<Rightarrow> contains (document d) l (activeElement d)) then s
      else s\<lparr>showPopover := False, selected := Null\<rparr>)"

definition handleBlur :: "'w combo \<Rightarrow> 'w combo" where
  "handleBlur s = s\<lparr>pendingFrames := pendingFrames s + 1\<rparr>"

text \<open>The next animation frame runs what was scheduled, against the page as it is then.\<close>

definition animationFrame :: "dom \<Rightarrow> 'w combo \<Rightarrow> 'w combo" where
  "animationFrame d s = (blurCheck d ^^ pendingFrames s) (s\<lparr>pendingFrames := 0\<rparr>)"

definition handleFocus :: "'w combo \<Rightarrow> 'w combo" where
  "handleFocus s = s\<lparr>showPopover := True\<rparr>"

text \<open>
  \<open>handleSelect\<close>, memoised on \<open>[]\<close>: the \<open>onSelect\<close> it tests and calls is the one in the
  closure of the first render.
\<close>

definition handleSelect :: "string \<Rightarrow> 'w combo \<Rightarrow> 'w combo" where
  "handleSelect v s =
     (let s1 = (case handleSelectHolds s of
                  None \<Rightarrow> s
                | Some f \<Rightarrow> s\<lparr>world := f (Str v) (world s)\<rparr>)
      in s1\<lparr>showPopover := False, selected := Null\<rparr>)"

text \<open>
  The component function of \<open>ComboBox\<close> called again with the prop \<open>onSelect\<close>: what its
  hooks keep. \<open>useCallback\<close> replaces the closure of \<open>onItemSelect\<close> by one over this
  render's \<open>onSelect\<close> when \<open>selected\<close> is not the dependency it stored, and keeps the old
  closure otherwise; the closure of \<open>handleSelect\<close> is never replaced.
\<close>

definition ComboBox :: "(jsval \<Rightarrow> 'w \<Rightarrow> 'w) option \<Rightarrow> 'w combo \<Rightarrow> 'w combo" where
  "ComboBox onSelect s =
     s\<lparr>onSelectProp := onSelect,
       onItemSelectHolds :=
         (if selected s = onItemSelectDeps s then onItemSelectHolds s else onSelect),
       onItemSelectDeps := selected s\<rparr>"

section \<open>The presentation components\<close>

text \<open>What the three components read from the context value; no provider gives null.\<close>

record contextType =
  ctxSelected :: jsval
  ctxShowPopover :: bool
  ctxListId :: string

definition provide :: "string \<Rightarrow> 'w combo \<Rightarrow> contextType" where
  "provide lid s = \<lparr>ctxSelected = selected s, ctxShowPopover = showPopover s, ctxListId = lid\<rparr>"

definition contextMissing :: string where
  "contextMissing = ''ComboBoxInput must be wrapped in a ComboBox component''"

record inputElement =
  inputId :: string
  inputRole :: string
  inputAriaControls :: string
  inputAriaActivedescendant :: "string option"

definition ComboBoxInput :: "contextType option \<Rightarrow> error + inputElement" where
  "ComboBoxInput c =
     (case c of
        None \<Rightarrow> Inl (JsError contextMissing)
      | Some ctx \<Rightarrow>
          Inr \<lparr>inputId = ctxListId ctx, inputRole = ''textbox'',
               inputAriaControls = ctxListId ctx,
               inputAriaActivedescendant =
                 (if falsy (ctxSelected ctx) then None
                  else Some (makeHash (ctxListId ctx) (orEmpty (ctxSelected ctx))))\<rparr>)"

text \<open>\<open>handleChange\<close> of the input: the caller's \<open>onChange\<close>, then the controller's.\<close>

definition handleChange :: "(string \<Rightarrow> 'w \<Rightarrow> 'w) option \<Rightarrow> string \<Rightarrow> 'w combo \<Rightarrow> 'w combo" where
  "handleChange onChange newValue s =
     onInputChange (case onChange of
                      None \<Rightarrow> s
                    | Some g \<Rightarrow> s\<lparr>world := g newValue (world s)\<rparr>)"

record listElement =
  listElemId :: string
  listRole :: string
  listAriaHidden :: bool

definition ComboBoxList :: "contextType option \<Rightarrow> error + listElement" where
  "ComboBoxList c =
     (case c of
        None \<Rightarrow> Inl (JsError contextMissing)
      | Some ctx \<Rightarrow>
          Inr \<lparr>listElemId = ctxListId ctx, listRole = ''listbox'',
               listAriaHidden = (\<not> ctxShowPopover ctx)\<rparr>)"

text \<open>The layout effect of the list (no dependency array) and its cleanup.\<close>

definition listLayoutEffect :: "'w combo \<Rightarrow> 'w combo" where
  "listLayoutEffect s = s\<lparr>options := Some []\<rparr>"

definition listLayoutCleanup :: "'w combo \<Rightarrow> 'w combo" where
  "listLayoutCleanup s = s\<lparr>options := Some []\<rparr>"

record optionElement =
  optionId :: string
  optionRole :: string
  optionAriaSelected :: string

definition ComboBoxOption :: "contextType option \<Rightarrow> string \<Rightarrow> error + optionElement" where
  "ComboBoxOption c v =
     (case c of
        None \<Rightarrow> Inl (JsError contextMissing)
      | Some ctx \<Rightarrow>
          Inr \<lparr>optionId = makeHash (ctxListId ctx) v, optionRole = ''option'',
               optionAriaSelected = (if ctxSelected ctx = Str v then ''true'' else ''false'')\<rparr>)"

text \<open>The effect of an option (no dependency array): push, unless the ref holds null.\<close>

definition optionEffect :: "string \<Rightarrow> 'w combo \<Rightarrow> 'w combo" where
  "optionEffect v s =
     (case options s of
        None \<Rightarrow> s
      | Some xs \<Rightarrow> s\<lparr>options := Some (xs @ [v])\<rparr>)"

text \<open>The click handler of a row calls the \<open>handleSelect\<close> of the context.\<close>

definition onClick :: "string \<Rightarrow> 'w combo \<Rightarrow> 'w combo" where
  "onClick v s = handleSelect v s"

section \<open>Render passes and event sequences\<close>

text \<open>
  A render pass of the list with the option rows \<open>vs\<close>, in rendered order, as the
  framework commits it: the list's cleanup when it was mounted before, its layout
  effect, then the passive effects, one per rendered row.
\<close>

definition renderPass :: "bool \<Rightarrow> string list \<Rightarrow> 'w combo \<Rightarrow> 'w combo" where
  "renderPass mounted vs s =
     fold optionEffect vs (listLayoutEffect (if mounted then listLayoutCleanup s else s))"

text \<open>
  A pass in which option rows render again and the list container does not: only the
  rows' effects run.
\<close>

definition rowsOnlyPass :: "string list \<Rightarrow> 'w combo \<Rightarrow> 'w combo" where
  "rowsOnlyPass vs s = fold optionEffect vs s"

text \<open>
  The first render: the cells are created, both closures are made over the \<open>onSelect\<close>
  given, and the effects of the list and of the rows \<open>vs\<close> run.
\<close>

definition mount :: "(jsval \<Rightarrow> 'w \<Rightarrow> 'w) option \<Rightarrow> string list \<Rightarrow> 'w \<Rightarrow> 'w combo" where
  "mount onSelect vs w =
     renderPass False vs
       ((initial w)\<lparr>onSelectProp := onSelect, rows := vs,
          onItemSelectHolds := onSelect, handleSelectHolds := onSelect\<rparr>)"

text \<open>
  A render of the root with the prop \<open>onSelect\<close> and the rows \<open>vs\<close>. The context value is
  a new object at every such render, so the list and every row render with it and their
  effects run.
\<close>

definition render ::
  "(jsval \<Rightarrow> 'w \<Rightarrow> 'w) option \<Rightarrow> bool \<Rightarrow> string list \<Rightarrow> 'w combo \<Rightarrow> 'w combo" where
  "render onSelect mounted vs s = renderPass mounted vs ((ComboBox onSelect s)\<lparr>rows := vs\<rparr>)"

text \<open>
  After a handler has run, the root renders again, with the prop and the rows it had, when
  a \<open>useState\<close> cell was set to a value that is not the one it held; otherwise nothing
  renders.
\<close>

definition stateChanged :: "'w combo \<Rightarrow> 'w combo \<Rightarrow> bool" where
  "stateChanged s s' =
     (\<not> (selected s' = selected s \<and> showPopover s' = showPopover s \<and> expanded s' = expanded s))"

definition settle :: "'w combo \<Rightarrow> 'w combo \<Rightarrow> 'w combo" where
  "settle s s' = (if stateChanged s s' then render (onSelectProp s') True (rows s') s' else s')"

text \<open>
  What can happen to a mounted widget: a key, a change of the input (with the \<open>onChange\<close>
  prop of the input and the new text), focus, blur, an animation frame, a click on the
  row of a value, a render of the root by its parent, a render of the rows alone, and the
  list leaving the tree.
\<close>

datatype 'w event =
    KeyDown string
  | Change "(string \<Rightarrow> 'w \<Rightarrow> 'w) option" string
  | Focus
  | Blur
  | Frame dom
  | Click string
  | Render "(jsval \<Rightarrow> 'w \<Rightarrow> 'w) option" bool "string list"
  | RowsRender "string list"
  | Unmount


fun step :: "'w event \<Rightarrow> 'w combo \<Rightarrow> error + 'w combo" where
  "step (KeyDown k) s =
     (case snd (onKeyDown \<lparr>key = k, defaultPrevented = False\<rparr> s) of
        Inl e \<Rightarrow> Inl e
      | Inr s' \<Rightarrow> Inr (settle s s'))"
| "step (Change onChange newValue) s = Inr (settle s (handleChange onChange newValue s))"
| "step Focus s = Inr (settle s (handleFocus s))"
| "step Blur s = Inr (handleBlur s)"
| "step (Frame d) s = Inr (settle s (animationFrame d s))"
| "step (Click v) s = Inr (settle s (onClick v s))"
| "step (Render onSelect mounted vs) s = Inr (render onSelect mounted vs s)"
| "step (RowsRender vs) s = Inr ((rowsOnlyPass vs s)\<lparr>rows := vs\<rparr>)"
| "step Unmount s = Inr ((listLayoutCleanup s)\<lparr>rows := []\<rparr>)"

fun run :: "'w event list \<Rightarrow> 'w combo \<Rightarrow> error + 'w combo" where
  "run [] s = Inr s"
| "run (ev # evs) s =
     (case step ev s of
        Inl e \<Rightarrow> Inl e
      | Inr s' \<Rightarrow> run evs s')"

section \<open>Array lookups\<close>

lemma indexOfFrom_first:
  "k < length xs \<Longrightarrow> xs ! k \<notin> set (take k xs) \<Longrightarrow> indexOfFrom xs (xs ! k) j = j + int k"
proof (induction xs arbitrary: k j)
  case Nil
  then show ?case by simp
next
  case (Cons x xs)
  show ?case
  proof (cases k)
    case 0
    then show ?thesis by simp
  next
    case (Suc m)
    with Cons.prems have "m < length xs" "xs ! m \<notin> set (take m xs)" "x \<noteq> xs ! m"
      by auto
    with Cons.IH [of m "j + 1"] Suc show ?thesis by simp
  qed
qed

lemma indexOf_distinct:
  "distinct opts \<Longrightarrow> k < length opts \<Longrightarrow> indexOf opts (opts ! k) = int k"
proof -
  assume d: "distinct opts" and k: "k < length opts"
  have "opts ! k \<notin> set (take k opts)"
  proof
    assume "opts ! k \<in> set (take k opts)"
    then obtain i where "i < k" "opts ! i = opts ! k"
      using k by (auto simp: in_set_conv_nth)
    with d k show False by (simp add: nth_eq_iff_index_eq)
  qed
  with k show ?thesis by (simp add: indexOf_def indexOfFrom_first)
qed

section \<open>Renders\<close>

lemma fold_optionEffect:
  "options s = Some xs \<Longrightarrow> fold optionEffect vs s = s\<lparr>options := Some (xs @ vs)\<rparr>"
proof (induction vs arbitrary: s xs)
  case Nil
  then show ?case by simp
next
  case (Cons v vs)
  have "optionEffect v s = s\<lparr>options := Some (xs @ [v])\<rparr>"
    using Cons.prems by (simp add: optionEffect_def)
  moreover have "options (s\<lparr>options := Some (xs @ [v])\<rparr>) = Some (xs @ [v])" by simp
  ultimately show ?case using Cons.IH [of "s\<lparr>options := Some (xs @ [v])\<rparr>" "xs @ [v]"]
    by simp
qed

lemma renderPass_eq: "renderPass mounted vs s = s\<lparr>options := Some vs\<rparr>"
proof -
  let ?s0 = "listLayoutEffect (if mounted then listLayoutCleanup s else s)"
  have "options ?s0 = Some []" by (simp add: listLayoutEffect_def)
  then have "fold optionEffect vs ?s0 = ?s0\<lparr>options := Some ([] @ vs)\<rparr>"
    by (rule fold_optionEffect)
  then show ?thesis by (simp add: renderPass_def listLayoutEffect_def listLayoutCleanup_def)
qed

lemma rowsOnlyPass_eq:
  "options s = Some xs \<Longrightarrow> rowsOnlyPass vs s = s\<lparr>options := Some (xs @ vs)\<rparr>"
  unfolding rowsOnlyPass_def by (rule fold_optionEffect)

lemma render_eq:
  "render onSelect mounted vs s = (ComboBox onSelect s)\<lparr>rows := vs, options := Some vs\<rparr>"
  by (simp add: render_def renderPass_eq)

lemma mount_eq:
  "mount onSelect vs w =
     \<lparr>selected = Null, showPopover = False, expanded = False, options = Some vs,
      pendingFrames = 0, world = w, onSelectProp = onSelect, rows = vs,
      onItemSelectDeps = Null, onItemSelectHolds = onSelect, handleSelectHolds = onSelect\<rparr>"
  by (simp add: mount_def renderPass_eq initial_def)

lemma render_cells:
  "selected (render onSelect mounted vs s) = selected s"
  "showPopover (render onSelect mounted vs s) = showPopover s"
  "expanded (render onSelect mounted vs s) = expanded s"
  "pendingFrames (render onSelect mounted vs s) = pendingFrames s"
  "world (render onSelect mounted vs s) = world s"
  "options (render onSelect mounted vs s) = Some vs"
  "rows (render onSelect mounted vs s) = vs"
  "onSelectProp (render onSelect mounted vs s) = onSelect"
  "handleSelectHolds (render onSelect mounted vs s) = handleSelectHolds s"
  "onItemSelectDeps (render onSelect mounted vs s) = selected s"
  "onItemSelectHolds (render onSelect mounted vs s) =
     (if selected s = onItemSelectDeps s then onItemSelectHolds s else onSelect)"
  by (simp_all add: render_eq ComboBox_def)

lemma settle_cells:
  "selected (settle s s') = selected s'"
  "showPopover (settle s s') = showPopover s'"
  "expanded (settle s s') = expanded s'"
  "pendingFrames (settle s s') = pendingFrames s'"
  "world (settle s s') = world s'"
  "rows (settle s s') = rows s'"
  "onSelectProp (settle s s') = onSelectProp s'"
  "handleSelectHolds (settle s s') = handleSelectHolds s'"
  "options (settle s s') = (if stateChanged s s' then Some (rows s') else options s')"
  by (simp_all add: settle_def render_cells)

lemma settle_same: "\<not> stateChanged s s' \<Longrightarrow> settle s s' = s'"
  by (simp add: settle_def)

section \<open>Closures\<close>

text \<open>
  From the mount on, whatever happens, the dependency \<open>useCallback\<close> stored for
  \<open>onItemSelect\<close> is the value of the cell \<open>selected\<close> when the next event arrives: the
  closures that read \<open>selected\<close> were all made in a render that saw the value the cell
  holds.
\<close>

lemma arrow_deps:
  "onArrowUp s = Inr s' \<Longrightarrow> onItemSelectDeps s' = onItemSelectDeps s"
  "onArrowDown s = Inr s' \<Longrightarrow> onItemSelectDeps s' = onItemSelectDeps s"
  by (auto simp: onArrowUp_def onArrowDown_def split: sum.splits option.splits if_splits)

lemma onItemSelect_deps: "onItemSelectDeps (onItemSelect s) = onItemSelectDeps s"
  by (simp add: onItemSelect_def Let_def split: option.split)

lemma onKeyDown_deps:
  assumes "snd (onKeyDown e s) = Inr s'"
  shows "onItemSelectDeps s' = onItemSelectDeps s"
proof -
  consider "key e = ''ArrowUp''" | "key e \<noteq> ''ArrowUp''" "key e = ''ArrowDown''"
    | "key e \<noteq> ''ArrowUp''" "key e \<noteq> ''ArrowDown''" "key e = ''Escape''"
    | "key e \<noteq> ''ArrowUp''" "key e \<noteq> ''ArrowDown''" "key e \<noteq> ''Escape''" "key e = ''Enter''"
    | "key e \<noteq> ''ArrowUp''" "key e \<noteq> ''ArrowDown''" "key e \<noteq> ''Escape''" "key e \<noteq> ''Enter''"
    by blast
  then show ?thesis
  proof cases
    case 1
    with assms have "onArrowUp s = Inr s'" by (simp add: onKeyDown_def)
    then show ?thesis by (rule arrow_deps)
  next
    case 2
    with assms have "onArrowDown s = Inr s'" by (simp add: onKeyDown_def)
    then show ?thesis by (rule arrow_deps)
  next
    case 3
    with assms have "s' = onEscape s" by (simp add: onKeyDown_def)
    then show ?thesis by (simp add: onEscape_def)
  next
    case 4
    with assms have "s' = onItemSelect s" by (simp add: onKeyDown_def)
    then show ?thesis by (simp add: onItemSelect_deps)
  next
    case 5
    with assms have "s' = s" by (simp add: onKeyDown_def)
    then show ?thesis by simp
  qed
qed

lemma settle_rendered:
  assumes "onItemSelectDeps s = selected s" "onItemSelectDeps s' = onItemSelectDeps s"
  shows "onItemSelectDeps (settle s s') = selected (settle s s')"
  using assms by (auto simp: settle_def stateChanged_def render_cells)

lemma step_rendered:
  assumes "onItemSelectDeps s = selected s" "step ev s = Inr s'"
  shows "onItemSelectDeps s' = selected s'"
proof (cases ev)
  case (KeyDown k)
  with assms(2) obtain s1 where s1: "snd (onKeyDown \<lparr>key = k, defaultPrevented = False\<rparr> s) = Inr s1"
      "s' = settle s s1"
    by (auto split: sum.splits)
  from onKeyDown_deps [OF s1(1)] have "onItemSelectDeps s1 = onItemSelectDeps s" .
  with assms(1) s1(2) show ?thesis by (simp add: settle_rendered)
next
  case (Change onChange x)
  have "onItemSelectDeps (handleChange onChange x s) = onItemSelectDeps s"
    by (simp add: handleChange_def onInputChange_def Let_def split: option.split)
  with assms Change show ?thesis by (auto simp: settle_rendered)
next
  case Focus
  have "onItemSelectDeps (handleFocus s) = onItemSelectDeps s" by (simp add: handleFocus_def)
  with assms Focus show ?thesis by (auto simp: settle_rendered)
next
  case Blur
  with assms show ?thesis by (auto simp: handleBlur_def)
next
  case (Frame d)
  have one: "onItemSelectDeps (blurCheck d t) = onItemSelectDeps t" for t :: "'a combo"
    by (simp add: blurCheck_def)
  have "onItemSelectDeps ((blurCheck d ^^ n) t) = onItemSelectDeps t" for n and t :: "'a combo"
    by (induction n) (simp_all add: one)
  then have "onItemSelectDeps (animationFrame d s) = onItemSelectDeps s"
    by (simp add: animationFrame_def)
  with assms Frame show ?thesis by (auto simp: settle_rendered)
next
  case (Click v)
  have "onItemSelectDeps (onClick v s) = onItemSelectDeps s"
    by (simp add: onClick_def handleSelect_def Let_def split: option.split)
  with assms Click show ?thesis by (auto simp: settle_rendered)
next
  case (Render onSelect mounted vs)
  with assms(2) show ?thesis by (auto simp: render_cells)
next
  case (RowsRender vs)
  obtain xs where "rowsOnlyPass vs s = s\<lparr>options := xs\<rparr>"
  proof (cases "options s")
    case None
    have "fold optionEffect vs s = s" using None
      by (induction vs) (simp_all add: optionEffect_def)
    then have "rowsOnlyPass vs s = s\<lparr>options := options s\<rparr>" by (simp add: rowsOnlyPass_def)
    then show ?thesis by (rule that)
  next
    case (Some ys)
    from rowsOnlyPass_eq [OF this, of vs] show ?thesis by (rule that)
  qed
  with assms RowsRender show ?thesis by auto
next
  case Unmount
  with assms show ?thesis by (auto simp: listLayoutCleanup_def)
qed

lemma run_rendered:
  "onItemSelectDeps s = selected s \<Longrightarrow> run evs s = Inr s' \<Longrightarrow>
     onItemSelectDeps s' = selected s'"
proof (induction evs arbitrary: s)
  case Nil
  then show ?case by simp
next
  case (Cons ev evs)
  from Cons.prems(2) obtain s1 where s1: "step ev s = Inr s1" "run evs s1 = Inr s'"
    by (auto simp del: step.simps split: sum.splits)
  from step_rendered [OF Cons.prems(1) s1(1)] have "onItemSelectDeps s1 = selected s1" .
  from Cons.IH [OF this s1(2)] show ?case .
qed

lemma mount_rendered: "onItemSelectDeps (mount onSelect vs w) = selected (mount onSelect vs w)"
  by (simp add: mount_eq)

section \<open>The arrow keys\<close>

lemma onArrowDown_at:
  assumes "options s = Some opts" "distinct opts" "[] \<notin> set opts" "k < length opts"
    "selected s = Str (opts ! k)"
  shows "onArrowDown s = Inr (s\<lparr>selected := Str (opts ! (Suc k mod length opts))\<rparr>)"
proof -
  have ne: "opts ! k \<noteq> []" using assms(3,4) by (metis nth_mem)
  have i: "getSelectedIndex s = Inr (int k)"
    using assms ne by (simp add: getSelectedIndex_def indexOf_distinct)
  show ?thesis
  proof (cases "Suc k = length opts")
    case True
    then have "opts \<noteq> []" "Suc k mod length opts = 0" by auto
    then show ?thesis using i assms(1) True
      by (simp add: onArrowDown_def elemAt_def)
  next
    case False
    with assms(4) have lt: "Suc k < length opts" by simp
    then have "Suc k mod length opts = Suc k" by simp
    moreover have "int k + 1 \<noteq> int (length opts)" using False by linarith
    ultimately show ?thesis using i assms(1) lt
      by (simp add: onArrowDown_def elemAt_def nat_add_distrib)
  qed
qed

lemma onArrowDown_none:
  assumes "options s = Some opts" "opts \<noteq> []" "falsy (selected s)"
  shows "onArrowDown s = Inr (s\<lparr>selected := Str (opts ! 0)\<rparr>)"
  using assms by (cases opts) (auto simp: onArrowDown_def getSelectedIndex_def elemAt_def)

lemma step_ArrowDown:
  "onArrowDown s = Inr s' \<Longrightarrow> step (KeyDown ''ArrowDown'') s = Inr (settle s s')"
  by (simp add: onKeyDown_def)


lemma settle_selected_only:
  assumes "options s = Some opts" "rows s = opts"
  shows "selected (settle s (s\<lparr>selected := x\<rparr>)) = x"
    "options (settle s (s\<lparr>selected := x\<rparr>)) = Some opts"
    "rows (settle s (s\<lparr>selected := x\<rparr>)) = opts"
    "world (settle s (s\<lparr>selected := x\<rparr>)) = world s"
    "showPopover (settle s (s\<lparr>selected := x\<rparr>)) = showPopover s"
  using assms by (simp_all add: settle_cells)

lemma step_ArrowDown_at:
  assumes "options s = Some opts" "rows s = opts" "distinct opts" "[] \<notin> set opts"
    "k < length opts" "selected s = Str (opts ! k)"
  shows "\<exists>s'. step (KeyDown ''ArrowDown'') s = Inr s'
           \<and> selected s' = Str (opts ! (Suc k mod length opts))
           \<and> options s' = Some opts \<and> rows s' = opts
           \<and> world s' = world s \<and> showPopover s' = showPopover s"
proof -
  let ?x = "Str (opts ! (Suc k mod length opts))"
  have "onArrowDown s = Inr (s\<lparr>selected := ?x\<rparr>)"
    using onArrowDown_at [OF assms(1,3,4,5,6)] .
  then have "step (KeyDown ''ArrowDown'') s = Inr (settle s (s\<lparr>selected := ?x\<rparr>))"
    by (rule step_ArrowDown)
  then show ?thesis using settle_selected_only [OF assms(1,2), of ?x] by simp
qed

lemma run_Cons_Inr: "step ev s = Inr s' \<Longrightarrow> run (ev # evs) s = run evs s'"
  by simp

lemma run_ArrowDown_from:
  assumes "distinct opts" "[] \<notin> set opts"
  shows "options s = Some opts \<Longrightarrow> rows s = opts \<Longrightarrow> k < length opts \<Longrightarrow>
    selected s = Str (opts ! k) \<Longrightarrow>
    \<exists>s'. run (replicate n (KeyDown ''ArrowDown'')) s = Inr s'
       \<and> selected s' = Str (opts ! ((k + n) mod length opts))
       \<and> options s' = Some opts \<and> rows s' = opts
       \<and> world s' = world s \<and> showPopover s' = showPopover s"
proof (induction n arbitrary: s k)
  case 0
  then show ?case by simp
next
  case (Suc n)
  let ?k' = "Suc k mod length opts"
  from step_ArrowDown_at [OF Suc.prems(1,2) assms Suc.prems(3,4)]
  obtain s1 where s1: "step (KeyDown ''ArrowDown'') s = Inr s1"
      "selected s1 = Str (opts ! ?k')" "options s1 = Some opts" "rows s1 = opts"
      "world s1 = world s" "showPopover s1 = showPopover s"
    by blast
  have "0 < length opts" using Suc.prems(3) by (cases opts) auto
  then have k': "?k' < length opts" by (rule mod_less_divisor)
  from Suc.IH [OF s1(3,4) k' s1(2)]
  obtain s' where s': "run (replicate n (KeyDown ''ArrowDown'')) s1 = Inr s'"
      "selected s' = Str (opts ! ((?k' + n) mod length opts))"
      "options s' = Some opts" "rows s' = opts"
      "world s' = world s1" "showPopover s' = showPopover s1"
    by blast
  have "(?k' + n) mod length opts = (k + Suc n) mod length opts"
    by (simp add: mod_add_left_eq)
  moreover have "run (replicate (Suc n) (KeyDown ''ArrowDown'')) s =
      run (replicate n (KeyDown ''ArrowDown'')) s1"
    using s1(1) by (simp only: replicate_Suc run_Cons_Inr)
  ultimately show ?case using s' s1(5,6) by simp
qed

text \<open>
  Claim C1, as the code has it. The registry is taken to hold pairwise distinct,
  non-empty strings and to be the rows the list renders. Then, starting from no
  selection, the n-th press of ArrowDown selects the registry element at index
  \<open>(n - 1) mod length\<close>; and when the selection is the last registry element, the next
  ArrowDown selects index 0. Each press goes through \<open>onKeyDown\<close> and is followed by the
  render the change of \<open>selected\<close> causes, which rebuilds the registry from the rows;
  popover and application state are as before.
\<close>

theorem arrowDown_cycles:
  assumes "options s = Some opts" "rows s = opts" "opts \<noteq> []" "distinct opts"
    "[] \<notin> set opts"
  shows "(selected s = Null \<longrightarrow> 0 < n \<longrightarrow>
            (\<exists>s'. run (replicate n (KeyDown ''ArrowDown'')) s = Inr s'
               \<and> selected s' = Str (opts ! ((n - 1) mod length opts))
               \<and> options s' = Some opts \<and> rows s' = opts
               \<and> world s' = world s \<and> showPopover s' = showPopover s))
       \<and> (selected s = Str (last opts) \<longrightarrow>
            (\<exists>s'. step (KeyDown ''ArrowDown'') s = Inr s' \<and> selected s' = Str (opts ! 0)))"
proof (intro conjI impI)
  assume sel: "selected s = Null" and n: "0 < n"
  then obtain m where m: "n = Suc m" by (cases n) auto
  let ?x = "Str (opts ! 0)"
  let ?s1 = "settle s (s\<lparr>selected := ?x\<rparr>)"
  have "onArrowDown s = Inr (s\<lparr>selected := ?x\<rparr>)"
    using onArrowDown_none [OF assms(1,3)] sel by simp
  then have first: "step (KeyDown ''ArrowDown'') s = Inr ?s1"
    by (rule step_ArrowDown)
  note c = settle_selected_only [OF assms(1,2), of ?x]
  have k0: "0 < length opts" using assms(3) by simp
  from run_ArrowDown_from [OF assms(4,5) c(2,3) k0 c(1), of m]
  obtain s' where s': "run (replicate m (KeyDown ''ArrowDown'')) ?s1 = Inr s'"
      "selected s' = Str (opts ! ((0 + m) mod length opts))"
      "options s' = Some opts" "rows s' = opts"
      "world s' = world ?s1" "showPopover s' = showPopover ?s1"
    by blast
  have "run (replicate (Suc m) (KeyDown ''ArrowDown'')) s =
      run (replicate m (KeyDown ''ArrowDown'')) ?s1"
    using first by (simp only: replicate_Suc run_Cons_Inr)
  then show "\<exists>s'. run (replicate n (KeyDown ''ArrowDown'')) s = Inr s'
      \<and> selected s' = Str (opts ! ((n - 1) mod length opts))
      \<and> options s' = Some opts \<and> rows s' = opts
      \<and> world s' = world s \<and> showPopover s' = showPopover s"
    using s' c(4,5) m by simp
next
  assume sel: "selected s = Str (last opts)"
  have l: "last opts = opts ! (length opts - 1)" using assms(3) by (simp add: last_conv_nth)
  have k: "length opts - 1 < length opts" using assms(3) by simp
  have sel': "selected s = Str (opts ! (length opts - 1))" using sel l by simp
  from step_ArrowDown_at [OF assms(1,2,4,5) k sel']
  show "\<exists>s'. step (KeyDown ''ArrowDown'') s = Inr s' \<and> selected s' = Str (opts ! 0)"
    using assms(3) by auto
qed

text \<open>
  The rows \<open>["a", "b", "c"]\<close>, mounted: the fifth press selects \<open>"b"\<close>, and from \<open>"c"\<close>
  one press selects \<open>"a"\<close>.
\<close>

theorem arrowDown_cycles_witness:
  "(\<exists>s'. run (replicate 5 (KeyDown ''ArrowDown'')) (mount None [''a'', ''b'', ''c''] ()) = Inr s'
      \<and> selected s' = Str ''b'' \<and> options s' = Some [''a'', ''b'', ''c''])
   \<and> (\<exists>s'. step (KeyDown ''ArrowDown'')
              (mount None [''a'', ''b'', ''c''] ()\<lparr>selected := Str ''c''\<rparr>) = Inr s'
      \<and> selected s' = Str ''a'')"
proof -
  let ?opts = "[''a'', ''b'', ''c'']"
  let ?s = "mount None ?opts ()"
  have o: "options ?s = Some ?opts" and r: "rows ?s = ?opts" and sel: "selected ?s = Null"
    by (simp_all add: mount_eq)
  have h: "?opts \<noteq> []" "distinct ?opts" "[] \<notin> set ?opts" by simp_all
  have m: "(5 - 1) mod length ?opts = Suc 0" by simp
  have a: "\<exists>s'. run (replicate 5 (KeyDown ''ArrowDown'')) ?s = Inr s'
      \<and> selected s' = Str ''b'' \<and> options s' = Some ?opts"
    using arrowDown_cycles [OF o r h, of 5] sel by (simp only: m) auto
  let ?t = "?s\<lparr>selected := Str ''c''\<rparr>"
  have o': "options ?t = Some ?opts" and r': "rows ?t = ?opts" using o r by simp_all
  have b: "\<exists>s'. step (KeyDown ''ArrowDown'') ?t = Inr s' \<and> selected s' = Str ''a''"
    using arrowDown_cycles [OF o' r' h, of 0] by simp
  from a b show ?thesis by (rule conjI)
qed

text \<open>
  Claim C1 as it is worded, for every non-empty registry, does not hold: the selection is
  kept as a value and its index is looked up again at every press, so with the rows
  \<open>["a", "a", "b"]\<close> the third press selects \<open>"a"\<close> again and never reaches index 2.
\<close>

theorem arrowDown_duplicates_counterexample:
  "\<not> (\<forall>opts n (s :: unit combo).
        opts \<noteq> [] \<longrightarrow> options s = Some opts \<longrightarrow> rows s = opts \<longrightarrow> selected s = Null \<longrightarrow>
        0 < n \<longrightarrow>
        (\<exists>s'. run (replicate n (KeyDown ''ArrowDown'')) s = Inr s'
           \<and> selected s' = Str (opts ! ((n - 1) mod length opts))))"
proof
  let ?opts = "[''a'', ''a'', ''b'']"
  let ?s = "mount None ?opts ()"
  assume "\<forall>opts n (s :: unit combo).
        opts \<noteq> [] \<longrightarrow> options s = Some opts \<longrightarrow> rows s = opts \<longrightarrow> selected s = Null \<longrightarrow>
        0 < n \<longrightarrow>
        (\<exists>s'. run (replicate n (KeyDown ''ArrowDown'')) s = Inr s'
           \<and> selected s' = Str (opts ! ((n - 1) mod length opts)))"
  then have "?opts \<noteq> [] \<longrightarrow> options ?s = Some ?opts \<longrightarrow> rows ?s = ?opts \<longrightarrow>
        selected ?s = Null \<longrightarrow> 0 < (3::nat) \<longrightarrow>
        (\<exists>s'. run (replicate 3 (KeyDown ''ArrowDown'')) ?s = Inr s'
           \<and> selected s' = Str (?opts ! ((3 - 1) mod length ?opts)))"
    by blast
  moreover have "options ?s = Some ?opts" "rows ?s = ?opts" "selected ?s = Null"
    by (simp_all add: mount_eq)
  ultimately obtain s' where s': "run (replicate 3 (KeyDown ''ArrowDown'')) ?s = Inr s'"
      "selected s' = Str ''b''"
    by auto
  let ?s1 = "settle ?s (?s\<lparr>selected := Str ''a''\<rparr>)"
  have o1: "options ?s1 = Some ?opts" and sel1: "selected ?s1 = Str ''a''"
    by (simp_all add: settle_cells mount_eq)
  have d1: "onArrowDown ?s = Inr (?s\<lparr>selected := Str ''a''\<rparr>)"
    by (simp add: mount_eq onArrowDown_def getSelectedIndex_def elemAt_def)
  have d2: "onArrowDown ?s1 = Inr (?s1\<lparr>selected := Str ''a''\<rparr>)"
    using o1 sel1 by (simp add: onArrowDown_def getSelectedIndex_def indexOf_def elemAt_def)
  have same: "settle ?s1 (?s1\<lparr>selected := Str ''a''\<rparr>) = ?s1"
    using sel1 by (simp add: settle_def stateChanged_def)
  have p1: "step (KeyDown ''ArrowDown'') ?s = Inr ?s1"
    using step_ArrowDown [OF d1] .
  have p2: "step (KeyDown ''ArrowDown'') ?s1 = Inr ?s1"
    using step_ArrowDown [OF d2] same by simp
  have "run (replicate 3 (KeyDown ''ArrowDown'')) ?s = Inr ?s1"
    using p1 p2 by (simp add: eval_nat_numeral del: step.simps)
  with s'(1) have "s' = ?s1" by simp
  with sel1 s'(2) show False by simp
qed

text \<open>
  The registry must also be what the list renders. After the rows \<open>["b", "c"]\<close> have
  rendered without the list over a registry \<open>["a"]\<close>, the registry is \<open>["a", "b", "c"]\<close>;
  the first press selects \<open>"a"\<close>, the render it causes rebuilds the registry as
  \<open>["b", "c"]\<close>, and the fourth press selects \<open>"b"\<close>, not the element at index 0.
\<close>

lemma arrowDown_stale_registry:
  "\<exists>s0 s'. run [RowsRender [''b'', ''c'']] (mount None [''a''] ()) = Inr s0
      \<and> options s0 = Some [''a'', ''b'', ''c''] \<and> rows s0 = [''b'', ''c''] \<and> selected s0 = Null
      \<and> run (replicate 4 (KeyDown ''ArrowDown'')) s0 = Inr s'
      \<and> selected s' = Str ''b''"
proof -
  let ?m = "mount None [''a''] ()"
  let ?s0 = "(rowsOnlyPass [''b'', ''c''] ?m)\<lparr>rows := [''b'', ''c'']\<rparr>"
  have m: "options ?m = Some [''a'']" by (simp add: mount_eq)
  have eq: "rowsOnlyPass [''b'', ''c''] ?m = ?m\<lparr>options := Some ([''a''] @ [''b'', ''c''])\<rparr>"
    using m by (rule rowsOnlyPass_eq)
  have s0: "options ?s0 = Some [''a'', ''b'', ''c'']" "rows ?s0 = [''b'', ''c'']"
      "selected ?s0 = Null"
    by (simp_all only: eq) (simp_all add: mount_eq)
  have r0: "run [RowsRender [''b'', ''c'']] ?m = Inr ?s0" by simp
  let ?s1 = "settle ?s0 (?s0\<lparr>selected := Str ''a''\<rparr>)"
  have d1: "onArrowDown ?s0 = Inr (?s0\<lparr>selected := Str ''a''\<rparr>)"
    using s0 by (simp add: onArrowDown_def getSelectedIndex_def elemAt_def)
  have s1: "options ?s1 = Some [''b'', ''c'']" "rows ?s1 = [''b'', ''c'']"
      "selected ?s1 = Str ''a''"
    using s0 by (simp_all add: settle_cells stateChanged_def)
  let ?s2 = "settle ?s1 (?s1\<lparr>selected := Str ''b''\<rparr>)"
  have d2: "onArrowDown ?s1 = Inr (?s1\<lparr>selected := Str ''b''\<rparr>)"
    using s1 by (simp add: onArrowDown_def getSelectedIndex_def indexOf_def elemAt_def)
  have s2: "options ?s2 = Some [''b'', ''c'']" "rows ?s2 = [''b'', ''c'']"
      "selected ?s2 = Str (([''b'', ''c'']) ! 0)"
    using s1 by (simp_all add: settle_cells stateChanged_def)
  have h: "distinct [''b'', ''c'']" "[] \<notin> set [''b'', ''c'']" "0 < length [''b'', ''c'']"
    by simp_all
  from run_ArrowDown_from [OF h(1,2) s2(1,2) h(3) s2(3), of 2]
  obtain s' where s': "run (replicate 2 (KeyDown ''ArrowDown'')) ?s2 = Inr s'"
      "selected s' = Str ''b''"
    by auto
  have "run (replicate 4 (KeyDown ''ArrowDown'')) ?s0 =
      run (replicate 2 (KeyDown ''ArrowDown'')) ?s2"
    using step_ArrowDown [OF d1] step_ArrowDown [OF d2]
    by (simp add: eval_nat_numeral del: step.simps)
  with s' r0 s0 show ?thesis by metis
qed







section \<open>Enter, Escape and clicks\<close>

lemma step_Enter: "step (KeyDown ''Enter'') s = Inr (settle s (onItemSelect s))"
  by (simp add: onKeyDown_def)

text \<open>
  What Enter and a click do with the \<open>onSelect\<close> their closures hold: it is applied once,
  to the selection as it is (\<open>null\<close> too, no test guards the call) or to the clicked
  value; selection and popover are cleared in either case.
\<close>

lemma enter_applies_held:
  assumes "onItemSelectHolds s = Some f"
  shows "\<exists>s'. step (KeyDown ''Enter'') s = Inr s' \<and> world s' = f (selected s) (world s)
           \<and> selected s' = Null \<and> \<not> showPopover s'"
  using assms by (simp add: step_Enter settle_cells onItemSelect_def del: step.simps(1))

lemma click_applies_held:
  assumes "handleSelectHolds s = Some f"
  shows "\<exists>s'. step (Click v) s = Inr s' \<and> world s' = f (Str v) (world s)
           \<and> selected s' = Null \<and> \<not> showPopover s'"
  using assms by (simp add: settle_cells onClick_def handleSelect_def)

lemma enter_clears:
  "\<exists>s'. step (KeyDown ''Enter'') s = Inr s' \<and> selected s' = Null \<and> \<not> showPopover s'"
  by (cases "onItemSelectHolds s")
    (simp_all add: step_Enter settle_cells onItemSelect_def del: step.simps(1))

text \<open>
  A render replaces the closure of \<open>onItemSelect\<close> only when \<open>selected\<close> has changed since
  the closure was made, and never the closure of \<open>handleSelect\<close>.
\<close>

lemma render_keeps_closures:
  assumes "selected s = onItemSelectDeps s"
  shows "onItemSelectHolds (render onSelect mounted vs s) = onItemSelectHolds s"
    and "handleSelectHolds (render onSelect mounted vs s) = handleSelectHolds s"
    and "onSelectProp (render onSelect mounted vs s) = onSelect"
  using assms by (simp_all add: render_cells)

text \<open>
  Claim C3, at an input where the code departs from it. The widget is mounted without
  \<open>onSelect\<close>, ArrowDown selects \<open>"a"\<close>, and the parent then renders it with an \<open>onSelect\<close>
  that appends its argument to a log. \<open>onItemSelect\<close> is memoised on \<open>[selected]\<close> alone, so
  the render keeps the closure made when \<open>"a"\<close> was selected, which holds no callback:
  Enter clears the selection and hides the popover, and the log stays empty.
\<close>

theorem enter_stale_onSelect:
  "\<exists>s1 s2. run [KeyDown ''ArrowDown'', Render (Some (\<lambda>v w. w @ [v])) True [''a'']]
              (mount None [''a''] []) = Inr s1
      \<and> selected s1 = Str ''a'' \<and> onSelectProp s1 = Some (\<lambda>v w. w @ [v]) \<and> world s1 = []
      \<and> step (KeyDown ''Enter'') s1 = Inr s2
      \<and> world s2 = [] \<and> selected s2 = Null \<and> \<not> showPopover s2"
proof -
  let ?f = "\<lambda>v w. w @ [v :: jsval]"
  let ?m = "mount None [''a''] ([] :: jsval list)"
  let ?a = "settle ?m (?m\<lparr>selected := Str ''a''\<rparr>)"
  let ?s1 = "render (Some ?f) True [''a''] ?a"
  have d: "onArrowDown ?m = Inr (?m\<lparr>selected := Str ''a''\<rparr>)"
    by (simp add: mount_eq onArrowDown_def getSelectedIndex_def elemAt_def)
  have a: "selected ?a = Str ''a''" "onItemSelectDeps ?a = Str ''a''"
      "onItemSelectHolds ?a = None" "world ?a = []" "showPopover ?a = False"
    by (simp_all add: settle_def stateChanged_def render_cells mount_eq)
  have r: "run [KeyDown ''ArrowDown'', Render (Some ?f) True [''a'']] ?m = Inr ?s1"
    using step_ArrowDown [OF d] by (simp del: step.simps(1))
  have s1: "selected ?s1 = Str ''a''" "onSelectProp ?s1 = Some ?f" "world ?s1 = []"
      "onItemSelectHolds ?s1 = None"
    using a by (simp_all add: render_cells)
  let ?s2 = "settle ?s1 (onItemSelect ?s1)"
  have e: "step (KeyDown ''Enter'') ?s1 = Inr ?s2" by (rule step_Enter)
  have s2: "world ?s2 = []" "selected ?s2 = Null" "\<not> showPopover ?s2"
    using s1 by (simp_all add: settle_cells onItemSelect_def)
  from r s1(1,2,3) e s2 show ?thesis by blast
qed

text \<open>
  Claim C10, at an input where the code departs from it. The widget is mounted without
  \<open>onSelect\<close> and focused, and the parent then renders it with an \<open>onSelect\<close> that appends
  its argument to a log. Nothing is selected and nothing was, so the closure of
  \<open>onItemSelect\<close> is still the one of the first render: Enter hides the popover, and the
  log stays empty.
\<close>

theorem enter_without_selection_stale_onSelect:
  "\<exists>s1 s2. run [Focus, Render (Some (\<lambda>v w. w @ [v])) True [''a'']]
              (mount None [''a''] []) = Inr s1
      \<and> selected s1 = Null \<and> showPopover s1 \<and> onSelectProp s1 = Some (\<lambda>v w. w @ [v])
      \<and> world s1 = []
      \<and> step (KeyDown ''Enter'') s1 = Inr s2
      \<and> world s2 = [] \<and> selected s2 = Null \<and> \<not> showPopover s2"
proof -
  let ?f = "\<lambda>v w. w @ [v :: jsval]"
  let ?m = "mount None [''a''] ([] :: jsval list)"
  let ?a = "settle ?m (handleFocus ?m)"
  let ?s1 = "render (Some ?f) True [''a''] ?a"
  have a: "selected ?a = Null" "onItemSelectDeps ?a = Null"
      "onItemSelectHolds ?a = None" "world ?a = []" "showPopover ?a"
    by (simp_all add: settle_def stateChanged_def render_cells mount_eq handleFocus_def)
  have r: "run [Focus, Render (Some ?f) True [''a'']] ?m = Inr ?s1" by simp
  have s1: "selected ?s1 = Null" "showPopover ?s1" "onSelectProp ?s1 = Some ?f"
      "world ?s1 = []" "onItemSelectHolds ?s1 = None"
    using a by (simp_all add: render_cells)
  let ?s2 = "settle ?s1 (onItemSelect ?s1)"
  have e: "step (KeyDown ''Enter'') ?s1 = Inr ?s2" by (rule step_Enter)
  have s2: "world ?s2 = []" "selected ?s2 = Null" "\<not> showPopover ?s2"
    using s1 by (simp_all add: settle_cells onItemSelect_def)
  from r s1(1,2,3,4) e s2 show ?thesis by blast
qed

text \<open>
  Claim C6, at an input where the code departs from it. The widget is mounted without
  \<open>onSelect\<close>, and the parent then renders it with an \<open>onSelect\<close> that appends its argument
  to a log. \<open>handleSelect\<close> is memoised on \<open>[]\<close>, so its closure is the one of the first
  render, which holds no callback: a click on the row \<open>"b"\<close> clears the selection and
  hides the popover, and the log stays empty.
\<close>

theorem click_stale_onSelect:
  "\<exists>s1 s2. run [Focus, Render (Some (\<lambda>v w. w @ [v])) True [''a'', ''b'']]
              (mount None [''a'', ''b''] []) = Inr s1
      \<and> showPopover s1 \<and> onSelectProp s1 = Some (\<lambda>v w. w @ [v]) \<and> world s1 = []
      \<and> step (Click ''b'') s1 = Inr s2
      \<and> world s2 = [] \<and> selected s2 = Null \<and> \<not> showPopover s2"
proof -
  let ?f = "\<lambda>v w. w @ [v :: jsval]"
  let ?m = "mount None [''a'', ''b''] ([] :: jsval list)"
  let ?a = "settle ?m (handleFocus ?m)"
  let ?s1 = "render (Some ?f) True [''a'', ''b''] ?a"
  have a: "handleSelectHolds ?a = None" "world ?a = []" "showPopover ?a"
    by (simp_all add: settle_cells mount_eq handleFocus_def)
  have r: "run [Focus, Render (Some ?f) True [''a'', ''b'']] ?m = Inr ?s1" by simp
  have s1: "showPopover ?s1" "onSelectProp ?s1 = Some ?f" "world ?s1 = []"
      "handleSelectHolds ?s1 = None"
    using a by (simp_all add: render_cells)
  let ?s2 = "settle ?s1 (onClick ''b'' ?s1)"
  have e: "step (Click ''b'') ?s1 = Inr ?s2" by simp
  have s2: "world ?s2 = []" "selected ?s2 = Null" "\<not> showPopover ?s2"
    using s1 by (simp_all add: settle_cells onClick_def handleSelect_def)
  from r s1(1,2,3) e s2 show ?thesis by blast
qed

text \<open>
  Claim C4. In every state Escape hides the popover and clears the selection, and the
  state of the embedding application is as before: \<open>onEscape\<close> calls no callback. The
  Escape key reaches it through \<open>onKeyDown\<close>, and the render that may follow changes none
  of the three.
\<close>

theorem onEscape_clears:
  "onEscape s = s\<lparr>showPopover := False, selected := Null\<rparr>
   \<and> world (onEscape s) = world s
   \<and> step (KeyDown ''Escape'') s = Inr (settle s (onEscape s))
   \<and> selected (settle s (onEscape s)) = Null
   \<and> showPopover (settle s (onEscape s)) = False
   \<and> world (settle s (onEscape s)) = world s"
  by (simp add: onEscape_def onKeyDown_def settle_cells)

section \<open>Key dispatch\<close>

text \<open>
  Claim C5. \<open>onKeyDown\<close> calls the handler named by the key, after \<open>preventDefault\<close>, for
  ArrowUp, ArrowDown, Escape and Enter; for any other key the event and the whole state
  are returned as they were.
\<close>

theorem onKeyDown_dispatch:
  "(key e = ''ArrowUp'' \<longrightarrow> onKeyDown e s = (preventDefault e, onArrowUp s))
   \<and> (key e = ''ArrowDown'' \<longrightarrow> onKeyDown e s = (preventDefault e, onArrowDown s))
   \<and> (key e = ''Escape'' \<longrightarrow> onKeyDown e s = (preventDefault e, Inr (onEscape s)))
   \<and> (key e = ''Enter'' \<longrightarrow> onKeyDown e s = (preventDefault e, Inr (onItemSelect s)))
   \<and> (key e \<notin> {''ArrowUp'', ''ArrowDown'', ''Escape'', ''Enter''} \<longrightarrow>
         onKeyDown e s = (e, Inr s))
   \<and> defaultPrevented (preventDefault e) \<and> key (preventDefault e) = key e"
  by (simp add: onKeyDown_def preventDefault_def)

text \<open>
  Tab leaves event and state alone; Escape is suppressed and handled.
\<close>

theorem onKeyDown_dispatch_witness:
  "onKeyDown \<lparr>key = ''Tab'', defaultPrevented = False\<rparr>
       (renderPass False [''a''] (initial ())) =
     (\<lparr>key = ''Tab'', defaultPrevented = False\<rparr>, Inr (renderPass False [''a''] (initial ())))
   \<and> onKeyDown \<lparr>key = ''Escape'', defaultPrevented = False\<rparr>
       (renderPass False [''a''] (initial ())\<lparr>selected := Str ''a'', showPopover := True\<rparr>) =
     (\<lparr>key = ''Escape'', defaultPrevented = True\<rparr>,
      Inr (renderPass False [''a''] (initial ())\<lparr>selected := Null, showPopover := False\<rparr>))"
proof -
  let ?s = "renderPass False [''a''] (initial ())"
  let ?t = "?s\<lparr>selected := Str ''a'', showPopover := True\<rparr>"
  have "onKeyDown \<lparr>key = ''Tab'', defaultPrevented = False\<rparr> ?s =
      (\<lparr>key = ''Tab'', defaultPrevented = False\<rparr>, Inr ?s)"
    using onKeyDown_dispatch [of "\<lparr>key = ''Tab'', defaultPrevented = False\<rparr>" ?s]
    by simp
  moreover have "onKeyDown \<lparr>key = ''Escape'', defaultPrevented = False\<rparr> ?t =
      (\<lparr>key = ''Escape'', defaultPrevented = True\<rparr>,
       Inr (?s\<lparr>selected := Null, showPopover := False\<rparr>))"
    using onKeyDown_dispatch [of "\<lparr>key = ''Escape'', defaultPrevented = False\<rparr>" ?t]
    by (simp add: preventDefault_def onEscape_def)
  ultimately show ?thesis by (rule conjI)
qed

section \<open>Focus and blur\<close>

lemma descendantsOf_subset: "set (descendantsOf a t) \<subseteq> set (nodeIds t)"
proof (induction t)
  case (Node i cs)
  then show ?case by (auto 4 3)
qed

lemma descendantsOf_self: "a \<in> set (nodeIds t) \<Longrightarrow> a \<in> set (descendantsOf a t)"
proof (induction t)
  case (Node i cs)
  then show ?case by (cases "i = a") auto
qed

lemma blurCheck_idem: "blurCheck d (blurCheck d s) = blurCheck d s"
  by (simp add: blurCheck_def)

lemma blurCheck_funpow: "(blurCheck d ^^ Suc n) s = blurCheck d s"
proof (induction n)
  case 0
  then show ?case by simp
next
  case (Suc n)
  have "(blurCheck d ^^ Suc (Suc n)) s = blurCheck d ((blurCheck d ^^ Suc n) s)" by simp
  also have "\<dots> = blurCheck d (blurCheck d s)" using Suc by simp
  finally show ?case by (simp only: blurCheck_idem)
qed

text \<open>
  Claim C7. Focus makes the popover visible. After a blur, the next animation frame
  hides the popover and clears the selection exactly when the focused element is neither
  what the input ref holds, nor what the list ref holds, nor contained in the list
  element; otherwise selection and popover stay as they were. The comparisons are the
  code's \<open>==\<close> on possibly-null references.
\<close>

theorem focus_shows_blur_hides:
  "showPopover (handleFocus s)
   \<and> animationFrame d (handleBlur s) =
       (if activeElement d \<noteq> inputRef d \<and> activeElement d \<noteq> listRef d
           \<and> \<not> (\<exists>l. listRef d = Some l \<and> contains (document d) l (activeElement d))
        then s\<lparr>showPopover := False, selected := Null, pendingFrames := 0\<rparr>
        else s\<lparr>pendingFrames := 0\<rparr>)"
proof -
  have "animationFrame d (handleBlur s) = blurCheck d (s\<lparr>pendingFrames := 0\<rparr>)"
    unfolding animationFrame_def handleBlur_def
    using blurCheck_funpow [where d = d and n = "pendingFrames s" and s = "s\<lparr>pendingFrames := 0\<rparr>"]
    by simp
  then show ?thesis
    by (cases "listRef d") (auto simp: blurCheck_def handleFocus_def)
qed

text \<open>
  A page with the input (1) and the list (2) holding two rows (3, 4) next to a button
  (5): a blur towards row 3 changes nothing, a blur towards the button hides the popover
  and clears the selection.
\<close>

theorem focus_shows_blur_hides_witness:
  "animationFrame
       \<lparr>document = Node 0 [Node 1 [], Node 2 [Node 3 [], Node 4 []], Node 5 []],
        activeElement = Some 3, inputRef = Some 1, listRef = Some 2\<rparr>
       (handleBlur (handleFocus (initial ()\<lparr>selected := Str ''a''\<rparr>))) =
     initial ()\<lparr>selected := Str ''a'', showPopover := True\<rparr>
   \<and> animationFrame
       \<lparr>document = Node 0 [Node 1 [], Node 2 [Node 3 [], Node 4 []], Node 5 []],
        activeElement = Some 5, inputRef = Some 1, listRef = Some 2\<rparr>
       (handleBlur (handleFocus (initial ()\<lparr>selected := Str ''a''\<rparr>))) =
     initial ()"
proof -
  let ?doc = "Node 0 [Node 1 [], Node 2 [Node 3 [], Node 4 []], Node 5 []]"
  let ?s = "handleFocus (initial ()\<lparr>selected := Str ''a''\<rparr>)"
  let ?d3 = "\<lparr>document = ?doc, activeElement = Some 3, inputRef = Some 1, listRef = Some 2\<rparr>"
  let ?d5 = "\<lparr>document = ?doc, activeElement = Some 5, inputRef = Some 1, listRef = Some 2\<rparr>"
  have "animationFrame ?d3 (handleBlur ?s) = initial ()\<lparr>selected := Str ''a'', showPopover := True\<rparr>"
    using focus_shows_blur_hides [of ?s ?d3]
    by (simp add: contains_def handleFocus_def initial_def)
  moreover have "animationFrame ?d5 (handleBlur ?s) = initial ()"
    using focus_shows_blur_hides [of ?s ?d5]
    by (simp add: contains_def handleFocus_def initial_def)
  ultimately show ?thesis by (rule conjI)
qed

section \<open>The registry\<close>

lemma onArrowUp_total:
  assumes "options s = Some opts"
  shows "\<exists>x. onArrowUp s = Inr (s\<lparr>selected := x\<rparr>)"
proof -
  obtain i where "getSelectedIndex s = Inr i"
    using assms by (cases "falsy (selected s)") (simp_all add: getSelectedIndex_def)
  then show ?thesis using assms by (auto simp: onArrowUp_def)
qed

lemma onArrowDown_total:
  assumes "options s = Some opts"
  shows "\<exists>x. onArrowDown s = Inr (s\<lparr>selected := x\<rparr>)"
proof -
  obtain i where "getSelectedIndex s = Inr i"
    using assms by (cases "falsy (selected s)") (simp_all add: getSelectedIndex_def)
  then show ?thesis using assms by (auto simp: onArrowDown_def)
qed

lemma onItemSelect_keeps: "options (onItemSelect s) = options s" "rows (onItemSelect s) = rows s"
  by (simp_all add: onItemSelect_def Let_def split: option.split)

lemma handleSelect_keeps:
  "options (handleSelect v s) = options s" "rows (handleSelect v s) = rows s"
  by (simp_all add: handleSelect_def Let_def split: option.split)

lemma handleChange_keeps:
  "options (handleChange onChange x s) = options s" "rows (handleChange onChange x s) = rows s"
  by (simp_all add: handleChange_def onInputChange_def Let_def split: option.split)

lemma blurCheck_keeps: "options (blurCheck d s) = options s" "rows (blurCheck d s) = rows s"
  by (simp_all add: blurCheck_def)

lemma funpow_blurCheck_keeps:
  "options ((blurCheck d ^^ n) s) = options s" "rows ((blurCheck d ^^ n) s) = rows s"
  by (induction n) (simp_all add: blurCheck_keeps)

lemma animationFrame_keeps:
  "options (animationFrame d s) = options s" "rows (animationFrame d s) = rows s"
  by (simp_all add: animationFrame_def funpow_blurCheck_keeps)

lemma onKeyDown_total:
  assumes "options s = Some opts"
  shows "\<exists>s'. snd (onKeyDown e s) = Inr s' \<and> options s' = Some opts \<and> rows s' = rows s"
proof -
  consider "key e = ''ArrowUp''" | "key e \<noteq> ''ArrowUp''" "key e = ''ArrowDown''"
    | "key e \<noteq> ''ArrowUp''" "key e \<noteq> ''ArrowDown''" "key e = ''Escape''"
    | "key e \<noteq> ''ArrowUp''" "key e \<noteq> ''ArrowDown''" "key e \<noteq> ''Escape''" "key e = ''Enter''"
    | "key e \<noteq> ''ArrowUp''" "key e \<noteq> ''ArrowDown''" "key e \<noteq> ''Escape''" "key e \<noteq> ''Enter''"
    by blast
  then show ?thesis
  proof cases
    case 1
    then have "snd (onKeyDown e s) = onArrowUp s" by (simp add: onKeyDown_def)
    moreover obtain x where "onArrowUp s = Inr (s\<lparr>selected := x\<rparr>)"
      using onArrowUp_total [OF assms] by blast
    ultimately show ?thesis using assms by simp
  next
    case 2
    then have "snd (onKeyDown e s) = onArrowDown s" by (simp add: onKeyDown_def)
    moreover obtain x where "onArrowDown s = Inr (s\<lparr>selected := x\<rparr>)"
      using onArrowDown_total [OF assms] by blast
    ultimately show ?thesis using assms by simp
  next
    case 3
    then have "snd (onKeyDown e s) = Inr (onEscape s)" by (simp add: onKeyDown_def)
    then show ?thesis using assms by (simp add: onEscape_def)
  next
    case 4
    then have "snd (onKeyDown e s) = Inr (onItemSelect s)" by (simp add: onKeyDown_def)
    then show ?thesis using assms by (simp add: onItemSelect_keeps)
  next
    case 5
    then have "snd (onKeyDown e s) = Inr s" by (simp add: onKeyDown_def)
    then show ?thesis using assms by simp
  qed
qed




lemma step_total:
  assumes "options s \<noteq> None"
  shows "\<exists>s'. step ev s = Inr s' \<and> options s' \<noteq> None"
proof -
  from assms obtain opts where o: "options s = Some opts" by auto
  show ?thesis
  proof (cases ev)
    case (KeyDown k)
    obtain s1 where s1: "snd (onKeyDown \<lparr>key = k, defaultPrevented = False\<rparr> s) = Inr s1"
        "options s1 = Some opts"
      using onKeyDown_total [OF o] by blast
    have "options (settle s s1) \<noteq> None" using s1(2) by (simp add: settle_cells)
    then show ?thesis using KeyDown s1(1) by simp
  next
    case (Change onChange x)
    then show ?thesis using o by (simp add: settle_cells handleChange_keeps)
  next
    case Focus
    then show ?thesis using o by (simp add: settle_cells handleFocus_def)
  next
    case Blur
    then show ?thesis using o by (simp add: handleBlur_def)
  next
    case (Frame d)
    then show ?thesis using o by (simp add: settle_cells animationFrame_keeps)
  next
    case (Click v)
    then show ?thesis using o by (simp add: settle_cells onClick_def handleSelect_keeps)
  next
    case (Render onSelect mounted vs)
    then show ?thesis by (simp add: render_cells)
  next
    case (RowsRender vs)
    then show ?thesis using rowsOnlyPass_eq [OF o, of vs] by simp
  next
    case Unmount
    then show ?thesis by (simp add: listLayoutCleanup_def)
  qed
qed

lemma run_total: "options s \<noteq> None \<Longrightarrow> \<exists>s'. run evs s = Inr s' \<and> options s' \<noteq> None"
proof (induction evs arbitrary: s)
  case Nil
  then show ?case by simp
next
  case (Cons ev evs)
  from step_total [OF Cons.prems, of ev]
  obtain s1 where s1: "step ev s = Inr s1" "options s1 \<noteq> None" by blast
  from Cons.IH [OF s1(2)] s1(1) show ?case by (simp del: step.simps)
qed




section \<open>Errors\<close>

text \<open>
  Claim C8. Each of the three presentation components, rendered with no context value,
  throws the context-missing error, and with a context value it renders. No other error
  is reachable: from the first render, with or without \<open>onSelect\<close> and rows, no sequence
  of events, renders included, makes a handler fail.
\<close>

theorem context_missing_only_error:
  "ComboBoxInput None = Inl (JsError contextMissing)
   \<and> ComboBoxList None = Inl (JsError contextMissing)
   \<and> ComboBoxOption None v = Inl (JsError contextMissing)
   \<and> (\<exists>el. ComboBoxInput (Some c) = Inr el)
   \<and> (\<exists>el. ComboBoxList (Some c) = Inr el)
   \<and> (\<exists>el. ComboBoxOption (Some c) v = Inr el)
   \<and> (\<exists>s'. run evs (initial w) = Inr s')
   \<and> (\<exists>s'. run evs (mount onSelect vs w) = Inr s')"
proof -
  have "options (initial w) \<noteq> None" by (simp add: initial_def)
  from run_total [OF this, of evs]
  have a: "\<exists>s'. run evs (initial w) = Inr s'" by blast
  have "options (mount onSelect vs w) \<noteq> None" by (simp add: mount_eq)
  from run_total [OF this, of evs]
  have b: "\<exists>s'. run evs (mount onSelect vs w) = Inr s'" by blast
  from a b show ?thesis by (simp add: ComboBoxInput_def ComboBoxList_def ComboBoxOption_def)
qed

end
